theory Spec2Isabelle
  imports Complex_Main "HOL-Library.Char_ord" "HOL-Library.List_Lexorder"
begin

section \<open>Data model\<close>

text \<open>
  The program is one Python module. Its functions are translated one by one; file names are
  relative to \<^verbatim>\<open>CACHE_DIR\<close>, which is taken to be the data directory the configuration
  block intends. Strings are sequences of characters, one HOL \<^typ>\<open>char\<close> per character.
\<close>

text \<open>The dataclass \<^verbatim>\<open>Job\<close>. It is declared without \<^verbatim>\<open>order=True\<close>: instances
  compare with \<^verbatim>\<open>==\<close> field by field and have no \<^verbatim>\<open><\<close>.\<close>

record job =
  title :: string
  url :: string
  date :: nat
  board :: string
  summary :: string

text \<open>Exceptions that reach the model. \<open>Failure\<close> is any exception raised inside a call to a
  collaborator (retry budget exhausted, transport error, unusable payload), with its text.\<close>

datatype exn = TypeError | AttributeError | IndexError | Failure string

text \<open>What \<^verbatim>\<open>json.loads\<close> can return.\<close>

datatype json =
    JNull
  | JBool bool
  | JNum real
  | JStr string
  | JArr "json list"
  | JObj "(string \<times> json) list"

text \<open>Lines written by \<^verbatim>\<open>print\<close>.\<close>

datatype msg =
    MsgLocked
  | MsgMood
  | MsgNoNewJobs
  | MsgRanked nat nat
  | MsgFailed string json
  | MsgSaved string string
  | MsgAllDone

text \<open>Requests sent to the scoring and the generation collaborator.\<close>

datatype call = EmbedCall "string list" | GptCall job

text \<open>
  The state a run reads and writes: the files of the data directory by name, whether the
  descriptor returned by \<^verbatim>\<open>os.open\<close> is open, the module-level set
  \<^verbatim>\<open>SEEN_URLS\<close>, the printed lines and the requests sent.
\<close>

record world =
  files :: "string \<rightharpoonup> string"
  lock_fd :: bool
  seen_urls :: "string set"
  out :: "msg list"
  calls :: "call list"

text \<open>A call either returns a value or raises; both leave a state behind.\<close>

datatype 'a outcome = Returned 'a world | Raised exn world

fun final :: "'a outcome \<Rightarrow> world" where
  "final (Returned _ w) = w"
| "final (Raised _ w) = w"

fun crashed :: "'a outcome \<Rightarrow> bool" where
  "crashed (Returned _ _) = False"
| "crashed (Raised _ _) = True"

text \<open>
  What a run receives from outside: the clock, the library functions whose result is not
  computed here, and the answers of the network. \<open>scraped\<close> is the list returned by
  \<^verbatim>\<open>asyncio.gather(*tasks, return_exceptions=True)\<close>, one entry per connector;
  \<open>embed\<close> is the result of \<^verbatim>\<open>_embed\<close> on a batch of texts; \<open>cosine\<close> is
  \<^verbatim>\<open>_cosine\<close> (floating point, taken as given, with values that are not NaN);
  \<open>gpt\<close> is the result of \<^verbatim>\<open>_gpt\<close> for the messages built from a job, \<open>Inl\<close> the text
  of the exception it raised; \<open>json_loads\<close> is \<^verbatim>\<open>json.loads\<close>, \<open>Inl\<close> the text of
  the exception; \<open>dumps\<close> is \<^verbatim>\<open>json.dumps\<close> on a list of strings; \<open>word_char\<close>
  says which characters the regular expression class \<^verbatim>\<open>\w\<close> matches.
\<close>

record env =
  today :: string
  eta :: string
  word_char :: "char \<Rightarrow> bool"
  dumps :: "string list \<Rightarrow> string"
  past_skills :: "string list"
  scraped :: "(exn + job list) list"
  embed :: "string list \<Rightarrow> exn + real list list"
  cosine :: "real list \<Rightarrow> real list \<Rightarrow> real"
  gpt :: "job \<Rightarrow> string + string"
  json_loads :: "string \<Rightarrow> string + json"

definition SEEN_FILE :: string where
  "SEEN_FILE = ''seen.json''"

definition LOCK_FILE :: string where
  "LOCK_FILE = ''.lock''"

definition MAX_APPLY :: nat where
  "MAX_APPLY = 3"

definition say :: "msg \<Rightarrow> world \<Rightarrow> world" where
  "say m w = w\<lparr>out := out w @ [m]\<rparr>"

section \<open>Gathering and filtering\<close>

text \<open>
  \<^verbatim>\<open>_gather\<close>: a connector that raised is skipped; of the others every job whose url is
  not in \<^verbatim>\<open>SEEN_URLS\<close> is appended, in order.
\<close>

fun gather :: "(exn + job list) list \<Rightarrow> string set \<Rightarrow> job list" where
  "gather [] seen = []"
| "gather (Inl e # results) seen = gather results seen"
| "gather (Inr batch # results) seen = filter (\<lambda>j. url j \<notin> seen) batch @ gather results seen"

text \<open>The jobs of the connectors that did not raise, in order.\<close>

fun delivered :: "(exn + job list) list \<Rightarrow> job list" where
  "delivered [] = []"
| "delivered (Inl e # results) = delivered results"
| "delivered (Inr batch # results) = batch @ delivered results"

section \<open>Ranking\<close>

text \<open>
  \<^verbatim>\<open>sorted(scores, reverse=True)\<close> compares the pairs \<^verbatim>\<open>(score, job)\<close> themselves.
  Python compares tuples item by item: the first items that differ under \<^verbatim>\<open>==\<close> decide
  with \<^verbatim>\<open><\<close>; two jobs that differ have no \<^verbatim>\<open><\<close>, which raises
  \<^verbatim>\<open>TypeError\<close>; tuples equal in every item are not less than one another.
\<close>

definition tuple_lt :: "real \<times> job \<Rightarrow> real \<times> job \<Rightarrow> exn + bool" where
  "tuple_lt a b =
     (if fst a \<noteq> fst b then Inr (fst a < fst b)
      else if snd a \<noteq> snd b then Inl TypeError
      else Inr False)"

text \<open>
  The list sort is stable and asks only whether a later element is less than an earlier
  one; it is modelled as insertion sort, each element placed behind every element that it
  is not less than. An exception raised by a comparison ends the sort.
\<close>

fun insert_sorted :: "real \<times> job \<Rightarrow> (real \<times> job) list \<Rightarrow> exn + (real \<times> job) list" where
  "insert_sorted x [] = Inr [x]"
| "insert_sorted x (y # ys) =
     (case tuple_lt x y of
        Inl e \<Rightarrow> Inl e
      | Inr True \<Rightarrow> Inr (x # y # ys)
      | Inr False \<Rightarrow>
          (case insert_sorted x ys of
             Inl e \<Rightarrow> Inl e
           | Inr zs \<Rightarrow> Inr (y # zs)))"

fun list_sort :: "(real \<times> job) list \<Rightarrow> (real \<times> job) list \<Rightarrow> exn + (real \<times> job) list" where
  "list_sort acc [] = Inr acc"
| "list_sort acc (x # xs) =
     (case insert_sorted x acc of
        Inl e \<Rightarrow> Inl e
      | Inr acc' \<Rightarrow> list_sort acc' xs)"

text \<open>With \<^verbatim>\<open>reverse=True\<close> the list is reversed, sorted, and reversed again.\<close>

definition sorted_reverse :: "(real \<times> job) list \<Rightarrow> exn + (real \<times> job) list" where
  "sorted_reverse xs =
     (case list_sort [] (rev xs) of
        Inl e \<Rightarrow> Inl e
      | Inr ys \<Rightarrow> Inr (rev ys))"

text \<open>Two different jobs with the same score.\<close>

definition tied :: "(real \<times> job) list \<Rightarrow> bool" where
  "tied xs = (\<exists>a \<in> set xs. \<exists>b \<in> set xs. fst a = fst b \<and> snd a \<noteq> snd b)"

definition join_spaces :: "string list \<Rightarrow> string" where
  "join_spaces xs = concat (case xs of [] \<Rightarrow> [] | y # ys \<Rightarrow> y # map (\<lambda>z. '' '' @ z) ys)"

definition all_texts :: "env \<Rightarrow> job list \<Rightarrow> string list" where
  "all_texts e jobs = join_spaces (past_skills e) # map (\<lambda>j. title j @ '' '' @ summary j) jobs"

text \<open>
  \<^verbatim>\<open>_rank_jobs\<close>. An empty list returns before any request. Otherwise one request is
  sent; \<^verbatim>\<open>embeds[0]\<close> raises \<^verbatim>\<open>IndexError\<close> on an empty result, and
  \<^verbatim>\<open>zip\<close> stops at the shorter of its arguments.
\<close>

definition rank_jobs :: "env \<Rightarrow> job list \<Rightarrow> world \<Rightarrow> job list outcome" where
  "rank_jobs e jobs w =
     (if jobs = [] then Returned [] w
      else
        let w1 = w\<lparr>calls := calls w @ [EmbedCall (all_texts e jobs)]\<rparr>
        in case embed e (all_texts e jobs) of
             Inl x \<Rightarrow> Raised x w1
           | Inr [] \<Rightarrow> Raised IndexError w1
           | Inr (base # rest) \<Rightarrow>
               (case sorted_reverse (map (\<lambda>(emb, j). (cosine e base emb, j)) (zip rest jobs)) of
                  Inl x \<Rightarrow> Raised x w1
                | Inr ranked \<Rightarrow> Returned (map snd ranked) w1))"

text \<open>The scoring fails when the request raises or returns no vector at all.\<close>

definition scoring_fails :: "env \<Rightarrow> job list \<Rightarrow> bool" where
  "scoring_fails e jobs =
     (case embed e (all_texts e jobs) of
        Inl x \<Rightarrow> True
      | Inr [] \<Rightarrow> True
      | Inr (base # rest) \<Rightarrow> False)"

section \<open>Generation\<close>

text \<open>
  \<^verbatim>\<open>_mega_generate\<close>: any exception of the request or of \<^verbatim>\<open>json.loads\<close> is
  caught and turned into a dict with the key \<^verbatim>\<open>data_error\<close>; a value that parses is
  returned as it is.
\<close>

definition mega_generate :: "env \<Rightarrow> job \<Rightarrow> json" where
  "mega_generate e j =
     (case gpt e j of
        Inl x \<Rightarrow> JObj [(''data_error'', JStr (''parse error: '' @ x))]
      | Inr raw \<Rightarrow>
          (case json_loads e raw of
             Inl x \<Rightarrow> JObj [(''data_error'', JStr (''parse error: '' @ x))]
           | Inr v \<Rightarrow> v))"

text \<open>\<^verbatim>\<open>zip(chosen, results)\<close>, the results being those of
  \<^verbatim>\<open>_mega_generate\<close> on each chosen job, in order.\<close>

definition generate_all :: "env \<Rightarrow> job list \<Rightarrow> (job \<times> json) list" where
  "generate_all e chosen = zip chosen (map (mega_generate e) chosen)"


section \<open>Files\<close>

text \<open>\<^verbatim>\<open>re.sub(r"\W+", "_", s)\<close>: every maximal run of characters outside
  \<^verbatim>\<open>\w\<close> becomes one underscore.\<close>

function re_sub_W :: "(char \<Rightarrow> bool) \<Rightarrow> string \<Rightarrow> string" where
  "re_sub_W wc [] = []"
| "re_sub_W wc (c # cs) =
     (if wc c then c # re_sub_W wc cs
      else CHR ''_'' # re_sub_W wc (dropWhile (\<lambda>d. \<not> wc d) cs))"
  by pat_completeness auto
termination
  by (relation "measure (\<lambda>(wc, s). length s)") (auto simp: le_imp_less_Suc length_dropWhile_le)

definition letter_name :: "env \<Rightarrow> job \<Rightarrow> string" where
  "letter_name e j =
     today e @ ''_'' @ take 40 (re_sub_W (word_char e) (title j)) @ ''_'' @ board j @ ''.md''"

text \<open>\<^verbatim>\<open>_save_letter\<close>; \<^verbatim>\<open>write_text\<close> raises \<^verbatim>\<open>TypeError\<close> before it
  opens the file when the data is not a string.\<close>

definition save_letter :: "env \<Rightarrow> job \<Rightarrow> json \<Rightarrow> world \<Rightarrow> string outcome" where
  "save_letter e j letter w =
     (case letter of
        JStr s \<Rightarrow> Returned (letter_name e j) (w\<lparr>files := (files w)(letter_name e j \<mapsto> s)\<rparr>)
      | _ \<Rightarrow> Raised TypeError w)"

definition read_or_empty :: "(string \<rightharpoonup> string) \<Rightarrow> string \<Rightarrow> string" where
  "read_or_empty fs p = (case fs p of Some s \<Rightarrow> s | None \<Rightarrow> [])"

text \<open>\<^verbatim>\<open>_schedule_followup\<close>: the new line goes in front of the old content.\<close>

definition schedule_followup :: "env \<Rightarrow> job \<Rightarrow> world \<Rightarrow> world" where
  "schedule_followup e j w =
     (let line = eta e @ ''||'' @ url j @ [CHR 0x0A];
          old = read_or_empty (files w) ''followups.txt''
      in w\<lparr>files := (files w)(''followups.txt'' \<mapsto> line @ old)\<rparr>)"

text \<open>
  File operations as the operating system sees them. \<^verbatim>\<open>write_text\<close> opens the file
  for writing, which creates or empties it, and the data arrives in pieces, here one
  character at a time; \<^verbatim>\<open>replace\<close> is one rename, which the operating system
  performs in a single step.
\<close>

datatype fs_op = Truncate string | Append string char | Rename string string

fun fs_step :: "fs_op \<Rightarrow> (string \<rightharpoonup> string) \<Rightarrow> (string \<rightharpoonup> string)" where
  "fs_step (Truncate p) fs = fs(p \<mapsto> [])"
| "fs_step (Append p c) fs = fs(p \<mapsto> read_or_empty fs p @ [c])"
| "fs_step (Rename a b) fs = (fs(b := fs a))(a := None)"

definition write_text_ops :: "string \<Rightarrow> string \<Rightarrow> fs_op list" where
  "write_text_ops p data = Truncate p # map (Append p) data"

text \<open>\<^verbatim>\<open>Path.with_suffix\<close>: the suffix starts at the last dot of the name, unless that
  dot is the first or the last character.\<close>

definition with_suffix :: "string \<Rightarrow> string \<Rightarrow> string" where
  "with_suffix name suffix =
     (let k = length (takeWhile (\<lambda>c. c \<noteq> CHR ''.'') (rev name))
      in if k < length name \<and> 0 < k \<and> Suc k < length name
         then take (length name - Suc k) name @ suffix
         else name @ suffix)"

text \<open>\<^verbatim>\<open>_save_seen\<close> as the sequence of its file operations, and as a state change.\<close>

definition save_seen_ops :: "env \<Rightarrow> string set \<Rightarrow> fs_op list" where
  "save_seen_ops e seen =
     (let tmp = with_suffix SEEN_FILE ''.tmp''
      in write_text_ops tmp (dumps e (sorted_list_of_set seen)) @ [Rename tmp SEEN_FILE])"

definition save_seen :: "env \<Rightarrow> string set \<Rightarrow> world \<Rightarrow> world" where
  "save_seen e seen w = w\<lparr>files := fold fs_step (save_seen_ops e seen) (files w)\<rparr>"

section \<open>The run\<close>

text \<open>\<^verbatim>\<open>needle in res\<close> for a parsed value: a key of a dict, an element of a list, a
  substring of a string; numbers, booleans and \<^verbatim>\<open>None\<close> raise \<^verbatim>\<open>TypeError\<close>.
  The pairs of a \<open>JObj\<close> are the items of the dict, each key once.\<close>

fun substring :: "string \<Rightarrow> string \<Rightarrow> bool" where
  "substring k [] = (k = [])"
| "substring k (c # cs) = (take (length k) (c # cs) = k \<or> substring k cs)"

fun py_in :: "string \<Rightarrow> json \<Rightarrow> exn + bool" where
  "py_in k (JObj kv) = Inr (map_of kv k \<noteq> None)"
| "py_in k (JArr xs) = Inr (JStr k \<in> set xs)"
| "py_in k (JStr s) = Inr (substring k s)"
| "py_in k JNull = Inl TypeError"
| "py_in k (JBool b) = Inl TypeError"
| "py_in k (JNum n) = Inl TypeError"

text \<open>\<^verbatim>\<open>res[key]\<close> with a string key, used only where \<^verbatim>\<open>key in res\<close> holds:
  a list or a string takes integer indices only.\<close>

fun py_getitem :: "json \<Rightarrow> string \<Rightarrow> exn + json" where
  "py_getitem (JObj kv) k = (case map_of kv k of Some v \<Rightarrow> Inr v | None \<Rightarrow> Inl (Failure ''KeyError''))"
| "py_getitem _ k = Inl TypeError"

text \<open>\<^verbatim>\<open>res.get(key, default)\<close>: only a dict has the method.\<close>

fun py_get :: "json \<Rightarrow> string \<Rightarrow> json \<Rightarrow> exn + json" where
  "py_get (JObj kv) k d = Inr (case map_of kv k of Some v \<Rightarrow> v | None \<Rightarrow> d)"
| "py_get _ k d = Inl AttributeError"

text \<open>The body of the loop over \<^verbatim>\<open>zip(chosen, results)\<close> in \<^verbatim>\<open>main\<close>.\<close>

definition handle_result :: "env \<Rightarrow> job \<Rightarrow> json \<Rightarrow> world \<Rightarrow> unit outcome" where
  "handle_result e j res w =
     (case py_in ''data_error'' res of
        Inl x \<Rightarrow> Raised x w
      | Inr True \<Rightarrow>
          (case py_getitem res ''data_error'' of
             Inl x \<Rightarrow> Raised x w
           | Inr v \<Rightarrow> Returned () (say (MsgFailed (title j) v) w))
      | Inr False \<Rightarrow>
          (case py_get res ''cover_letter'' (JStr []) of
             Inl x \<Rightarrow> Raised x w
           | Inr letter \<Rightarrow>
               (case save_letter e j letter w of
                  Raised x w1 \<Rightarrow> Raised x w1
                | Returned path w1 \<Rightarrow>
                    let w2 = schedule_followup e j w1;
                        w3 = w2\<lparr>seen_urls := insert (url j) (seen_urls w2)\<rparr>
                    in Returned () (say (MsgSaved (title j) path) w3))))"

fun handle_results :: "env \<Rightarrow> (job \<times> json) list \<Rightarrow> world \<Rightarrow> unit outcome" where
  "handle_results e [] w = Returned () w"
| "handle_results e ((j, res) # rest) w =
     (case handle_result e j res w of
        Raised x w1 \<Rightarrow> Raised x w1
      | Returned u w1 \<Rightarrow> handle_results e rest w1)"

text \<open>
  \<^verbatim>\<open>main\<close>. The lock file is created exclusively; \<^verbatim>\<open>FileExistsError\<close> is the
  only exception caught. The generation requests are all issued by
  \<^verbatim>\<open>asyncio.gather\<close> before the first result is handled. Nothing in the function
  catches an exception of the ranking or of the loop, and the two statements that close
  and remove the lock file come after the \<^verbatim>\<open>async with\<close> block.
\<close>

definition release_lock :: "world \<Rightarrow> world" where
  "release_lock w = w\<lparr>files := (files w)(LOCK_FILE := None), lock_fd := False\<rparr>"

definition main :: "env \<Rightarrow> world \<Rightarrow> unit outcome" where
  "main e w =
     (if files w LOCK_FILE \<noteq> None then Returned () (say MsgLocked w)
      else
        let w1 = say MsgMood (w\<lparr>files := (files w)(LOCK_FILE \<mapsto> []), lock_fd := True\<rparr>);
            jobs = gather (scraped e) (seen_urls w1)
        in if jobs = [] then Returned () (say MsgNoNewJobs w1)
           else
             (case rank_jobs e jobs w1 of
                Raised x w2 \<Rightarrow> Raised x w2
              | Returned ranked w2 \<Rightarrow>
                  let chosen = take MAX_APPLY ranked;
                      w3 = say (MsgRanked (length jobs) (length chosen)) w2;
                      w4 = w3\<lparr>calls := calls w3 @ map GptCall chosen\<rparr>
                  in (case handle_results e (generate_all e chosen) w4 of
                        Raised x w5 \<Rightarrow> Raised x w5
                      | Returned u w5 \<Rightarrow>
                          Returned () (release_lock (say MsgAllDone (save_seen e (seen_urls w5) w5))))))"


section \<open>Retrying\<close>

text \<open>
  \<^verbatim>\<open>_get_html\<close> and \<^verbatim>\<open>_openai_post\<close> are wrapped by the \<^verbatim>\<open>retry\<close> decorator.
  One attempt returns a value or raises; \<open>StatusError\<close> is \<^verbatim>\<open>httpx.HTTPStatusError\<close>,
  \<open>TransportError\<close> any other \<^verbatim>\<open>httpx.HTTPError\<close>, \<open>OtherError\<close> any other exception.
\<close>

datatype http_exn = StatusError | TransportError | OtherError

datatype 'a attempt = Ok 'a | Fails http_exn

datatype 'a retry_result = Success 'a | RetryError | Reraised http_exn

record 'a retried =
  result :: "'a retry_result"
  attempts :: nat
  waits :: "nat list"

text \<open>\<^verbatim>\<open>wait_exponential\<close>: the wait in seconds after attempt \<open>n\<close>, counted from 1.\<close>

definition wait_exponential :: "nat \<Rightarrow> nat \<Rightarrow> nat \<Rightarrow> nat \<Rightarrow> nat" where
  "wait_exponential multiplier lo hi n = max (max 0 lo) (min (multiplier * 2 ^ (n - 1)) hi)"

text \<open>
  The loop of the decorator: attempt \<open>n\<close> is made; a value is returned; an exception
  outside the retried class is raised again; otherwise the run stops with
  \<^verbatim>\<open>RetryError\<close> once \<open>n\<close> reaches the limit of \<^verbatim>\<open>stop_after_attempt\<close>, and
  else sleeps and makes attempt \<open>n + 1\<close>. \<open>answer n\<close> is what attempt \<open>n\<close> meets.
\<close>

function retrying ::
  "nat \<Rightarrow> (nat \<Rightarrow> nat) \<Rightarrow> (http_exn \<Rightarrow> bool) \<Rightarrow> (nat \<Rightarrow> 'a attempt) \<Rightarrow> nat \<Rightarrow> nat list \<Rightarrow> 'a retried" where
  "retrying limit wait retried_class answer n slept =
     (case answer n of
        Ok v \<Rightarrow> \<lparr>result = Success v, attempts = n, waits = slept\<rparr>
      | Fails x \<Rightarrow>
          if \<not> retried_class x then \<lparr>result = Reraised x, attempts = n, waits = slept\<rparr>
          else if limit \<le> n then \<lparr>result = RetryError, attempts = n, waits = slept\<rparr>
          else retrying limit wait retried_class answer (Suc n) (slept @ [wait n]))"
  by pat_completeness auto
termination
  by (relation "measure (\<lambda>(limit, wait, retried_class, answer, n, slept). limit - n)") auto

definition get_html :: "(nat \<Rightarrow> 'a attempt) \<Rightarrow> 'a retried" where
  "get_html answer =
     retrying 3 (wait_exponential 1 2 20) (\<lambda>x. x = StatusError \<or> x = TransportError) answer 1 []"

definition openai_post :: "(nat \<Rightarrow> 'a attempt) \<Rightarrow> 'a retried" where
  "openai_post answer =
     retrying 4 (wait_exponential 2 4 60) (\<lambda>x. x = StatusError) answer 1 []"

section \<open>Concrete runs\<close>

text \<open>Inputs on which the definitions are evaluated below.\<close>

definition posting :: "string \<Rightarrow> string \<Rightarrow> string \<Rightarrow> job" where
  "posting t u b = \<lparr>title = t, url = u, date = 0, board = b, summary = []\<rparr>"

definition w0 :: world where
  "w0 = \<lparr>files = Map.empty, lock_fd = False, seen_urls = {}, out = [], calls = []\<rparr>"

definition ascii_word :: "char \<Rightarrow> bool" where
  "ascii_word c =
     (let n = (of_char c :: nat)
      in (48 \<le> n \<and> n \<le> 57) \<or> (65 \<le> n \<and> n \<le> 90) \<or> (97 \<le> n \<and> n \<le> 122) \<or> n = 95)"

definition first_coordinate :: "real list \<Rightarrow> real list \<Rightarrow> real" where
  "first_coordinate a b = (case b of [] \<Rightarrow> 0 | x # xs \<Rightarrow> x)"

text \<open>The text of a well-formed answer, an object whose only key is
  \<^verbatim>\<open>cover_letter\<close>; \<open>CHR 0x22\<close> is the double quote.\<close>

definition letter_text :: string where
  "letter_text =
     ''{'' @ [CHR 0x22] @ ''cover_letter'' @ [CHR 0x22] @ '': '' @ [CHR 0x22] @ ''Dear team'' @ [CHR 0x22] @ ''}''"

definition parse_sample :: "string \<Rightarrow> string + json" where
  "parse_sample raw =
     (if raw = ''{}'' then Inr (JObj [])
      else if raw = ''[]'' then Inr (JArr [])
      else if raw = letter_text then Inr (JObj [(''cover_letter'', JStr ''Dear team'')])
      else Inl ''Expecting value'')"

definition reply_sample :: "job \<Rightarrow> string + string" where
  "reply_sample j =
     (if url j = ''u1'' then Inl ''RetryError''
      else if url j = ''u2'' then Inr ''{}''
      else if url j = ''u6'' then Inr ''[]''
      else Inr letter_text)"

definition env0 :: env where
  "env0 = \<lparr>today = ''2024-05-01'', eta = ''2024-05-03T09:00:00'', word_char = ascii_word,
            dumps = concat, past_skills = [''python''], scraped = [],
            embed = (\<lambda>texts. Inl (Failure ''RetryError'')), cosine = first_coordinate,
            gpt = reply_sample, json_loads = parse_sample\<rparr>"

text \<open>Every connector answers, and none has a posting.\<close>

definition env_none :: env where
  "env_none = env0\<lparr>scraped := [Inr [], Inl (Failure ''ReadTimeout''), Inr []]\<rparr>"

text \<open>Four postings with the scores 0.9, 0.2, 0.9 and 0.5.\<close>

definition four_jobs :: "job list" where
  "four_jobs = [posting ''a'' ''u0'' ''WWR'', posting ''b'' ''u1'' ''WWR'',
                posting ''c'' ''u2'' ''WWR'', posting ''d'' ''u3'' ''WWR'']"

definition env_tie :: env where
  "env_tie = env0\<lparr>embed := (\<lambda>texts. Inr [[1], [9 / 10], [2 / 10], [9 / 10], [5 / 10]])\<rparr>"

text \<open>One new posting, and a scoring request that fails.\<close>

definition env_rank_fail :: env where
  "env_rank_fail = env0\<lparr>scraped := [Inr [posting ''a'' ''u0'' ''WWR'']]\<rparr>"

text \<open>Two connectors return the same url.\<close>

definition twice :: "(exn + job list) list" where
  "twice = [Inr [posting ''a'' ''u0'' ''RemoteOK''], Inr [posting ''a'' ''u0'' ''WWR'']]"



text \<open>Two postings whose titles differ only in punctuation.\<close>

definition dev1 :: job where
  "dev1 = posting ''Senior Dev!'' ''u4'' ''WWR''"

definition dev2 :: job where
  "dev2 = posting ''Senior Dev ?!'' ''u5'' ''WWR''"

text \<open>An endpoint that answers every attempt with an error status.\<close>

definition always_503 :: "nat \<Rightarrow> string attempt" where
  "always_503 n = Fails StatusError"

section \<open>The process lock\<close>

text \<open>
  Where the lock file is at the end of a run that created it: it is gone exactly when
  \<^verbatim>\<open>main\<close> returned normally after handling at least one new posting. A run that
  finds nothing new, and a run that an exception ends, leave it behind.
\<close>

lemma handle_result_keeps_files:
  "files w p \<noteq> None \<Longrightarrow> files (final (handle_result e j res w)) p \<noteq> None"
  by (auto simp: handle_result_def save_letter_def schedule_followup_def say_def Let_def
      split: sum.splits bool.splits json.splits)

lemma handle_results_keeps_files:
  "files w p \<noteq> None \<Longrightarrow> files (final (handle_results e zs w)) p \<noteq> None"
proof (induction zs arbitrary: w)
  case Nil
  then show ?case by simp
next
  case (Cons z zs)
  obtain j res where z: "z = (j, res)" by (cases z)
  show ?case
  proof (cases "handle_result e j res w")
    case (Returned u w1)
    then have "files w1 p \<noteq> None"
      using handle_result_keeps_files [OF Cons.prems, of e j res] by simp
    then show ?thesis using Returned Cons.IH by (simp add: z)
  next
    case (Raised x w1)
    then have "files w1 p \<noteq> None"
      using handle_result_keeps_files [OF Cons.prems, of e j res] by simp
    then show ?thesis using Raised by (simp add: z)
  qed
qed

lemma rank_jobs_files: "files (final (rank_jobs e jobs w)) = files w"
  by (simp add: rank_jobs_def Let_def split: sum.splits list.splits)

lemma main_lock_at_exit:
  assumes "files w LOCK_FILE = None"
  shows "(files (final (main e w)) LOCK_FILE = None) =
         (\<not> crashed (main e w) \<and> gather (scraped e) (seen_urls w) \<noteq> [])"
proof (cases "gather (scraped e) (seen_urls w) = []")
  case True
  then show ?thesis using assms by (simp add: main_def say_def Let_def)
next
  case False
  let ?w1 = "say MsgMood (w\<lparr>files := (files w)(LOCK_FILE \<mapsto> []), lock_fd := True\<rparr>)"
  let ?jobs = "gather (scraped e) (seen_urls w)"
  show ?thesis
  proof (cases "rank_jobs e ?jobs ?w1")
    case (Raised x w2)
    have "files w2 = files ?w1"
      using rank_jobs_files [of e ?jobs ?w1] Raised by simp
    then show ?thesis
      using assms False Raised by (simp add: main_def say_def Let_def)
  next
    case (Returned ranked w2)
    have f2: "files w2 = files ?w1"
      using rank_jobs_files [of e ?jobs ?w1] Returned by simp
    let ?w4 = "(say (MsgRanked (length ?jobs) (length (take MAX_APPLY ranked))) w2)
        \<lparr>calls := calls (say (MsgRanked (length ?jobs) (length (take MAX_APPLY ranked))) w2)
                   @ map GptCall (take MAX_APPLY ranked)\<rparr>"
    have l4: "files ?w4 LOCK_FILE \<noteq> None"
      using f2 by (simp add: say_def)
    show ?thesis
    proof (cases "handle_results e (generate_all e (take MAX_APPLY ranked)) ?w4")
      case (Raised x w5)
      have "files w5 LOCK_FILE \<noteq> None"
        using handle_results_keeps_files [OF l4, of e "generate_all e (take MAX_APPLY ranked)"] Raised
        by simp
      then show ?thesis
        using assms False Returned Raised by (simp add: main_def say_def Let_def)
    next
      case (Returned u w5)
      show ?thesis
        using assms False \<open>rank_jobs e ?jobs ?w1 = Returned ranked w2\<close> Returned
        by (simp add: main_def say_def Let_def release_lock_def)
    qed
  qed
qed

text \<open>
  Claim C1: a run that acquires the lock releases it on every exit path. Evaluated on a
  run in which every connector answers and none has a posting: the function returns at
  the report of no new jobs, from inside the \<^verbatim>\<open>async with\<close> block, and the lock
  file is still there with its descriptor open.
\<close>

theorem main_no_new_jobs_keeps_lock:
  "main env_none w0 =
     Returned () (w0\<lparr>files := [LOCK_FILE \<mapsto> []], lock_fd := True, out := [MsgMood, MsgNoNewJobs]\<rparr>)"
  by (simp add: main_def env_none_def env0_def w0_def say_def)

section \<open>Ranking order\<close>

text \<open>
  What the sort of \<^verbatim>\<open>_rank_jobs\<close> returns: when no two different jobs share a
  score, the pairs in descending order of score, equal pairs in input order, which is the
  stable sort by the negated score; when two different jobs share a score, \<^verbatim>\<open>TypeError\<close>.
\<close>

lemma insort_key_at_end:
  "\<forall>z \<in> set zs. \<not> g x \<le> g z \<Longrightarrow> insort_key g x zs = zs @ [x]"
  by (induction zs) simp_all

lemma insort_key_snoc:
  "g x \<le> g y \<Longrightarrow> insort_key g x (zs @ [y]) = insort_key g x zs @ [y]"
  by (induction zs) simp_all

lemma sorted_rev_neg:
  "sorted (map (\<lambda>p. - fst p) (rev ys)) = sorted (map fst ys)" for ys :: "(real \<times> job) list"
  by (simp add: rev_map sorted_wrt_rev sorted_wrt_map flip: rev_map)

lemma insert_sorted_untied:
  assumes "sorted (map fst ys)" and "\<forall>y \<in> set ys. fst x = fst y \<longrightarrow> snd x = snd y"
  shows "insert_sorted x ys = Inr (rev (insort_key (\<lambda>p. - fst p) x (rev ys)))"
  using assms
proof (induction ys)
  case Nil
  then show ?case by simp
next
  case (Cons y ys)
  show ?case
  proof (cases "fst x < fst y")
    case True
    then have "\<forall>z \<in> set (rev ys @ [y]). \<not> - fst x \<le> - fst z"
      using Cons.prems(1) by auto
    then have "insort_key (\<lambda>p. - fst p) x (rev ys @ [y]) = (rev ys @ [y]) @ [x]"
      by (rule insort_key_at_end)
    then show ?thesis using True by (simp add: tuple_lt_def)
  next
    case False
    then have le: "- fst x \<le> - fst y" by simp
    have t: "tuple_lt x y = Inr False"
      using False Cons.prems(2) by (simp add: tuple_lt_def)
    have ih: "insert_sorted x ys = Inr (rev (insort_key (\<lambda>p. - fst p) x (rev ys)))"
      using Cons.IH Cons.prems by simp
    show ?thesis
      using t ih insort_key_snoc [of "\<lambda>p. - fst p" x y "rev ys", OF le] by simp
  qed
qed

lemma insert_sorted_tied:
  assumes "sorted (map fst ys)" and "\<exists>y \<in> set ys. fst x = fst y \<and> snd x \<noteq> snd y"
  shows "insert_sorted x ys = Inl TypeError"
  using assms
proof (induction ys)
  case Nil
  then show ?case by simp
next
  case (Cons y ys)
  show ?case
  proof (cases "fst x = fst y \<and> snd x \<noteq> snd y")
    case True
    then show ?thesis by (simp add: tuple_lt_def)
  next
    case False
    then have rest: "\<exists>z \<in> set ys. fst x = fst z \<and> snd x \<noteq> snd z"
      using Cons.prems(2) by auto
    then have "\<not> fst x < fst y"
      using Cons.prems(1) by auto
    then have t: "tuple_lt x y = Inr False"
      using False by (auto simp: tuple_lt_def)
    have "insert_sorted x ys = Inl TypeError"
      using Cons.IH Cons.prems(1) rest by simp
    then show ?thesis using t by simp
  qed
qed

lemma tied_set: "set xs = set ys \<Longrightarrow> tied xs = tied ys"
  by (simp add: tied_def)

lemma list_sort_untied:
  "sorted (map fst acc) \<Longrightarrow> \<not> tied (acc @ zs) \<Longrightarrow>
   list_sort acc zs = Inr (rev (foldr (insort_key (\<lambda>p. - fst p)) (rev zs) (rev acc)))"
proof (induction zs arbitrary: acc)
  case Nil
  then show ?case by simp
next
  case (Cons x zs)
  let ?acc = "rev (insort_key (\<lambda>p. - fst p) x (rev acc))"
  have "\<forall>y \<in> set acc. fst x = fst y \<longrightarrow> snd x = snd y"
    using Cons.prems(2) by (auto simp: tied_def)
  then have i: "insert_sorted x acc = Inr ?acc"
    using Cons.prems(1) by (rule insert_sorted_untied [rotated])
  have s: "sorted (map fst ?acc)"
    using Cons.prems(1) by (simp add: sorted_insort_key flip: sorted_rev_neg)
  have "set (?acc @ zs) = set (acc @ x # zs)"
    by (auto simp: set_insort_key)
  then have u: "\<not> tied (?acc @ zs)"
    using Cons.prems(2) tied_set by blast
  show ?case
    using i Cons.IH [OF s u] by simp
qed

lemma list_sort_tied:
  "sorted (map fst acc) \<Longrightarrow> \<not> tied acc \<Longrightarrow> tied (acc @ zs) \<Longrightarrow> list_sort acc zs = Inl TypeError"
proof (induction zs arbitrary: acc)
  case Nil
  then show ?case by simp
next
  case (Cons x zs)
  show ?case
  proof (cases "\<exists>y \<in> set acc. fst x = fst y \<and> snd x \<noteq> snd y")
    case True
    then have "insert_sorted x acc = Inl TypeError"
      using Cons.prems(1) by (rule insert_sorted_tied [rotated])
    then show ?thesis by simp
  next
    case False
    let ?acc = "rev (insort_key (\<lambda>p. - fst p) x (rev acc))"
    have i: "insert_sorted x acc = Inr ?acc"
      using Cons.prems(1) False by (intro insert_sorted_untied) auto
    have s: "sorted (map fst ?acc)"
      using Cons.prems(1) by (simp add: sorted_insort_key flip: sorted_rev_neg)
    have e: "set ?acc = insert x (set acc)"
      by (auto simp: set_insort_key)
    have u: "\<not> tied ?acc"
      using False Cons.prems(2) unfolding tied_def e by (metis insertE)
    have "set (?acc @ zs) = set (acc @ x # zs)"
      using e by auto
    then have t: "tied (?acc @ zs)"
      using Cons.prems(3) tied_set by blast
    show ?thesis
      using i Cons.IH [OF s u t] by simp
  qed
qed

lemma sorted_reverse_stable_or_raises:
  "sorted_reverse xs = (if tied xs then Inl TypeError else Inr (sort_key (\<lambda>p. - fst p) xs))"
proof (cases "tied xs")
  case True
  then have "tied ([] @ rev xs)" using tied_set [of "rev xs" xs] by simp
  then have "list_sort [] (rev xs) = Inl TypeError"
    by (intro list_sort_tied) (simp_all add: tied_def)
  then show ?thesis using True by (simp add: sorted_reverse_def)
next
  case False
  then have "\<not> tied ([] @ rev xs)" using tied_set [of "rev xs" xs] by simp
  then have "list_sort [] (rev xs) = Inr (rev (foldr (insort_key (\<lambda>p. - fst p)) (rev (rev xs)) (rev [])))"
    by (intro list_sort_untied) simp_all
  then show ?thesis using False by (simp add: sorted_reverse_def sort_key_def)
qed

lemma rank_jobs_order:
  assumes "jobs \<noteq> []" and "embed e (all_texts e jobs) = Inr (base # rest)"
  shows "rank_jobs e jobs w =
     (if tied (map (\<lambda>(emb, j). (cosine e base emb, j)) (zip rest jobs))
      then Raised TypeError (w\<lparr>calls := calls w @ [EmbedCall (all_texts e jobs)]\<rparr>)
      else Returned (map snd (sort_key (\<lambda>p. - fst p) (map (\<lambda>(emb, j). (cosine e base emb, j)) (zip rest jobs))))
             (w\<lparr>calls := calls w @ [EmbedCall (all_texts e jobs)]\<rparr>))"
  using assms by (simp add: rank_jobs_def Let_def sorted_reverse_stable_or_raises)

text \<open>
  Claim C2: ranking returns the postings in descending order of score, equal scores in
  input order. Evaluated on four different postings with the scores 0.9, 0.2, 0.9 and
  0.5: the sort compares the two pairs with the score 0.9, which compares their jobs, and
  \<^verbatim>\<open>_rank_jobs\<close> raises \<^verbatim>\<open>TypeError\<close> instead of returning an order.
\<close>

theorem rank_jobs_equal_scores_raise:
  "rank_jobs env_tie four_jobs w0 =
     Raised TypeError (w0\<lparr>calls := [EmbedCall (all_texts env_tie four_jobs)]\<rparr>)"
  by (simp add: rank_jobs_def env_tie_def env0_def four_jobs_def w0_def posting_def
      sorted_reverse_def tuple_lt_def first_coordinate_def)

section \<open>A scoring request that fails\<close>

lemma rank_jobs_scoring_fails:
  assumes "jobs \<noteq> []" and "scoring_fails e jobs"
  shows "\<exists>x. rank_jobs e jobs w = Raised x (w\<lparr>calls := calls w @ [EmbedCall (all_texts e jobs)]\<rparr>)"
  using assms by (auto simp: rank_jobs_def scoring_fails_def Let_def split: sum.splits list.splits)

text \<open>
  Claim C3, as stated: when the scoring fails the run does not crash, completes with no
  selection and releases the lock. On a run with one new posting and a scoring request
  that raises, \<^verbatim>\<open>main\<close> raises, and the lock file stays.
\<close>

theorem main_scoring_failure_counterexample:
  "crashed (main env_rank_fail w0) \<and> files (final (main env_rank_fail w0)) LOCK_FILE = Some []"
  by (simp add: main_def env_rank_fail_def env0_def w0_def say_def rank_jobs_def posting_def Let_def)

text \<open>
  Claim C3, amended: when the lock is acquired, some posting is new and the scoring
  request raises or returns no vector, the exception leaves \<^verbatim>\<open>main\<close>, and the run has
  made no selection: the scoring request is the only request sent, \<^verbatim>\<open>SEEN_URLS\<close> is
  unchanged, no file other than the lock file is touched, and nothing is printed after
  the first line.
\<close>

theorem scoring_failure_aborts_without_selection:
  assumes "files w LOCK_FILE = None"
    and "gather (scraped e) (seen_urls w) \<noteq> []"
    and "scoring_fails e (gather (scraped e) (seen_urls w))"
  shows "crashed (main e w) \<and>
         calls (final (main e w)) = calls w @ [EmbedCall (all_texts e (gather (scraped e) (seen_urls w)))] \<and>
         seen_urls (final (main e w)) = seen_urls w \<and>
         (\<forall>p. p \<noteq> LOCK_FILE \<longrightarrow> files (final (main e w)) p = files w p) \<and>
         out (final (main e w)) = out w @ [MsgMood]"
proof -
  let ?w1 = "say MsgMood (w\<lparr>files := (files w)(LOCK_FILE \<mapsto> []), lock_fd := True\<rparr>)"
  let ?jobs = "gather (scraped e) (seen_urls w)"
  obtain x where r: "rank_jobs e ?jobs ?w1 = Raised x (?w1\<lparr>calls := calls ?w1 @ [EmbedCall (all_texts e ?jobs)]\<rparr>)"
    using rank_jobs_scoring_fails [OF assms(2,3)] by blast
  have "main e w = Raised x (?w1\<lparr>calls := calls ?w1 @ [EmbedCall (all_texts e ?jobs)]\<rparr>)"
    using assms(1,2) r by (simp add: main_def Let_def say_def)
  then show ?thesis by (simp add: say_def)
qed

theorem scoring_failure_aborts_without_selection_witness:
  "files w0 LOCK_FILE = None \<and> gather (scraped env_rank_fail) (seen_urls w0) \<noteq> [] \<and>
   scoring_fails env_rank_fail (gather (scraped env_rank_fail) (seen_urls w0)) \<and>
   crashed (main env_rank_fail w0) \<and>
   calls (final (main env_rank_fail w0)) = [EmbedCall [''python'', ''a '']] \<and>
   seen_urls (final (main env_rank_fail w0)) = {} \<and>
   files (final (main env_rank_fail w0)) ''followups.txt'' = None \<and>
   out (final (main env_rank_fail w0)) = [MsgMood]"
proof -
  have h1: "files w0 LOCK_FILE = None" by (simp add: w0_def)
  have h2: "gather (scraped env_rank_fail) (seen_urls w0) \<noteq> []"
    by (simp add: env_rank_fail_def env0_def w0_def)
  have h3: "scoring_fails env_rank_fail (gather (scraped env_rank_fail) (seen_urls w0))"
    by (simp add: scoring_fails_def env_rank_fail_def env0_def w0_def)
  have t: "all_texts env_rank_fail (gather (scraped env_rank_fail) (seen_urls w0)) = [''python'', ''a '']"
    by (simp add: all_texts_def join_spaces_def env_rank_fail_def env0_def w0_def posting_def)
  have l: "''followups.txt'' \<noteq> LOCK_FILE" by (simp add: LOCK_FILE_def)
  show ?thesis
    using scoring_failure_aborts_without_selection [OF h1 h2 h3] h1 h2 h3 t l
    by (simp add: w0_def)
qed

section \<open>Filtering\<close>

lemma gather_delivered: "gather results seen = filter (\<lambda>j. url j \<notin> seen) (delivered results)"
  by (induction results seen rule: gather.induct) simp_all

text \<open>
  Claim C4, as stated: the urls of the working set passed to ranking are unique. When two
  connectors return the same url, not seen before, \<^verbatim>\<open>_gather\<close> keeps both postings.
\<close>

theorem gather_same_url_counterexample:
  "\<not> distinct (map url (gather twice {}))"
  by (simp add: twice_def posting_def)

text \<open>
  Claim C4, amended: the working set is the list of delivered postings, in order, without
  those whose url is in \<^verbatim>\<open>SEEN_URLS\<close> as loaded; no url of the working set is in
  that set, and a url that occurs twice among the delivered postings occurs twice in the
  working set.
\<close>

theorem gather_filters_seen_only:
  "gather results seen = filter (\<lambda>j. url j \<notin> seen) (delivered results) \<and>
   url ` set (gather results seen) \<inter> seen = {}"
  by (auto simp: gather_delivered)

section \<open>Persisting the seen urls\<close>

lemma tmp_name: "with_suffix SEEN_FILE ''.tmp'' = ''seen.tmp''"
  by (simp add: with_suffix_def SEEN_FILE_def)

lemma fold_append_other:
  "q \<noteq> p \<Longrightarrow> fold fs_step (map (Append p) cs) fs q = fs q"
  by (induction cs arbitrary: fs) simp_all

lemma fold_append_same:
  "fs p = Some s \<Longrightarrow> fold fs_step (map (Append p) cs) fs p = Some (s @ cs)"
  by (induction cs arbitrary: fs s) (simp_all add: read_or_empty_def)

lemma write_text_prefix_other:
  "q \<noteq> p \<Longrightarrow> fold fs_step (take n (write_text_ops p data)) fs q = fs q"
  by (cases n) (simp_all add: write_text_ops_def take_map fold_append_other)

lemma write_text_complete:
  "fold fs_step (write_text_ops p data) fs p = Some data"
  by (simp add: write_text_ops_def fold_append_same)

text \<open>
  Claim C5: \<^verbatim>\<open>_save_seen\<close> writes the urls to a temporary file and then renames it
  over the backing file, so the backing file holds the old content or the new content
  and never a part of it. The operations are a complete write of \<^verbatim>\<open>seen.tmp\<close>
  followed by one rename; after any number \<open>n\<close> of them, which is where a reader looks or
  the process dies, \<^verbatim>\<open>seen.json\<close> is as it was or holds the whole new text; after
  all of them it holds the new text.
\<close>

theorem save_seen_never_torn:
  "save_seen_ops e seen =
     write_text_ops ''seen.tmp'' (dumps e (sorted_list_of_set seen)) @ [Rename ''seen.tmp'' SEEN_FILE] \<and>
   (fold fs_step (take n (save_seen_ops e seen)) fs SEEN_FILE = fs SEEN_FILE \<or>
    fold fs_step (take n (save_seen_ops e seen)) fs SEEN_FILE = Some (dumps e (sorted_list_of_set seen))) \<and>
   fold fs_step (save_seen_ops e seen) fs SEEN_FILE = Some (dumps e (sorted_list_of_set seen))"
proof -
  let ?data = "dumps e (sorted_list_of_set seen)"
  let ?w = "write_text_ops ''seen.tmp'' ?data"
  have ops: "save_seen_ops e seen = ?w @ [Rename ''seen.tmp'' SEEN_FILE]"
    by (simp add: save_seen_ops_def tmp_name Let_def)
  have ne: "SEEN_FILE \<noteq> ''seen.tmp''"
    by (simp add: SEEN_FILE_def)
  have whole: "fold fs_step (?w @ [Rename ''seen.tmp'' SEEN_FILE]) fs SEEN_FILE = Some ?data"
    using ne by (simp add: write_text_complete)
  have part: "fold fs_step (take n (?w @ [Rename ''seen.tmp'' SEEN_FILE])) fs SEEN_FILE = fs SEEN_FILE
      \<or> fold fs_step (take n (?w @ [Rename ''seen.tmp'' SEEN_FILE])) fs SEEN_FILE = Some ?data"
  proof (cases "n \<le> length ?w")
    case True
    then have "take n (?w @ [Rename ''seen.tmp'' SEEN_FILE]) = take n ?w" by simp
    then show ?thesis using write_text_prefix_other [OF ne] by simp
  next
    case False
    then have "take n (?w @ [Rename ''seen.tmp'' SEEN_FILE]) = ?w @ [Rename ''seen.tmp'' SEEN_FILE]" by simp
    then show ?thesis using whole by simp
  qed
  show ?thesis using ops whole part by simp
qed

section \<open>Failures of the generation\<close>












section \<open>No new postings\<close>

text \<open>
  Claim C7: with no posting left after filtering, \<^verbatim>\<open>_rank_jobs\<close> returns the empty
  list and sends nothing, and a run that holds the lock returns normally, having sent no
  request to either collaborator and printed the report of no new jobs.
\<close>

theorem empty_input_short_circuit:
  "rank_jobs e [] w = Returned [] w \<and>
   (files w LOCK_FILE = None \<longrightarrow> gather (scraped e) (seen_urls w) = [] \<longrightarrow>
      \<not> crashed (main e w) \<and>
      calls (final (main e w)) = calls w \<and>
      out (final (main e w)) = out w @ [MsgMood, MsgNoNewJobs])"
  by (simp add: rank_jobs_def main_def say_def Let_def)

theorem empty_input_short_circuit_witness:
  "files w0 LOCK_FILE = None \<and> gather (scraped env_none) (seen_urls w0) = [] \<and>
   rank_jobs env_none [] w0 = Returned [] w0 \<and>
   \<not> crashed (main env_none w0) \<and>
   calls (final (main env_none w0)) = [] \<and>
   out (final (main env_none w0)) = [MsgMood, MsgNoNewJobs]"
proof -
  have h1: "files w0 LOCK_FILE = None" by (simp add: w0_def)
  have h2: "gather (scraped env_none) (seen_urls w0) = []"
    by (simp add: env_none_def env0_def)
  show ?thesis
    using empty_input_short_circuit [of env_none w0] h1 h2 by (simp add: w0_def)
qed

section \<open>Retry policies\<close>

lemma retrying_bounds:
  "n \<le> limit \<Longrightarrow>
   n \<le> attempts (retrying limit wait rc answer n slept) \<and>
   attempts (retrying limit wait rc answer n slept) \<le> limit \<and>
   waits (retrying limit wait rc answer n slept) =
     slept @ map wait [n..<attempts (retrying limit wait rc answer n slept)]"
proof (induction limit wait rc answer n slept rule: retrying.induct)
  case (1 limit wait rc answer n slept)
  show ?case
  proof (cases "answer n")
    case (Ok v)
    then show ?thesis using "1.prems" by simp
  next
    case (Fails x)
    show ?thesis
    proof (cases "rc x \<and> n < limit")
      case True
      then have step: "retrying limit wait rc answer n slept =
          retrying limit wait rc answer (Suc n) (slept @ [wait n])"
        using Fails by simp
      have ih: "Suc n \<le> attempts (retrying limit wait rc answer (Suc n) (slept @ [wait n])) \<and>
         attempts (retrying limit wait rc answer (Suc n) (slept @ [wait n])) \<le> limit \<and>
         waits (retrying limit wait rc answer (Suc n) (slept @ [wait n])) =
           (slept @ [wait n]) @ map wait [Suc n..<attempts (retrying limit wait rc answer (Suc n) (slept @ [wait n]))]"
        using "1.IH" [OF Fails] True by simp
      then show ?thesis
        unfolding step by (simp add: upt_conv_Cons)
    next
      case False
      then show ?thesis using Fails "1.prems" by auto
    qed
  qed
qed

lemma wait_exponential_le: "lo \<le> hi \<Longrightarrow> wait_exponential k lo hi n \<le> hi"
  by (simp add: wait_exponential_def)

lemma wait_exponential_mono:
  "m \<le> n \<Longrightarrow> wait_exponential k lo hi m \<le> wait_exponential k lo hi n"
proof -
  assume "m \<le> n"
  then have "(2::nat) ^ (m - 1) \<le> 2 ^ (n - 1)"
    by (intro power_increasing) auto
  then have "k * 2 ^ (m - 1) \<le> k * 2 ^ (n - 1)" by simp
  then show ?thesis
    unfolding wait_exponential_def by (intro max.mono min.mono order_refl)
qed

text \<open>
  Claim C8: whatever the attempts meet, \<^verbatim>\<open>_get_html\<close> makes at most 3 of them and
  \<^verbatim>\<open>_openai_post\<close> at most 4; the wait after attempt \<open>n\<close> is the exponential
  \<open>multiplier * 2 ^ (n - 1)\<close> kept between the minimum and the maximum of the policy, so
  it never decreases from one attempt to the next and never exceeds 20 seconds for the
  first and 60 seconds for the second. Both functions are total: the loop ends.
\<close>

theorem retry_policies_bounded:
  "attempts (get_html answer) \<le> 3 \<and>
   attempts (openai_post answer') \<le> 4 \<and>
   waits (get_html answer) = map (wait_exponential 1 2 20) [1..<attempts (get_html answer)] \<and>
   waits (openai_post answer') = map (wait_exponential 2 4 60) [1..<attempts (openai_post answer')] \<and>
   (\<forall>s \<in> set (waits (get_html answer)). s \<le> 20) \<and>
   (\<forall>s \<in> set (waits (openai_post answer')). s \<le> 60) \<and>
   (m \<le> n \<longrightarrow> wait_exponential 1 2 20 m \<le> wait_exponential 1 2 20 n \<and>
              wait_exponential 2 4 60 m \<le> wait_exponential 2 4 60 n)"
proof -
  have a: "attempts (get_html answer) \<le> 3 \<and>
      waits (get_html answer) = map (wait_exponential 1 2 20) [1..<attempts (get_html answer)]"
    using retrying_bounds [of 1 3 "wait_exponential 1 2 20" _ answer "[]"]
    by (simp add: get_html_def)
  have b: "attempts (openai_post answer') \<le> 4 \<and>
      waits (openai_post answer') = map (wait_exponential 2 4 60) [1..<attempts (openai_post answer')]"
    using retrying_bounds [of 1 4 "wait_exponential 2 4 60" _ answer' "[]"]
    by (simp add: openai_post_def)
  have c: "\<forall>s \<in> set (waits (get_html answer)). s \<le> 20"
    using a by (auto simp: wait_exponential_le)
  have d: "\<forall>s \<in> set (waits (openai_post answer')). s \<le> 60"
    using b by (auto simp: wait_exponential_le)
  show ?thesis using a b c d wait_exponential_mono by blast
qed

text \<open>An endpoint that always answers with an error status is given up after 3 and 4
  attempts, with waits of 2, 2 and of 4, 4, 8 seconds.\<close>

theorem retry_policies_bounded_witness:
  "get_html always_503 = \<lparr>result = RetryError, attempts = 3, waits = [2, 2]\<rparr> \<and>
   openai_post always_503 = \<lparr>result = RetryError, attempts = 4, waits = [4, 4, 8]\<rparr> \<and>
   attempts (get_html always_503) \<le> 3 \<and>
   attempts (openai_post always_503) \<le> 4 \<and>
   list_all (\<lambda>s. s \<le> 20) (waits (get_html always_503)) \<and>
   list_all (\<lambda>s. s \<le> 60) (waits (openai_post always_503)) \<and>
   (1::nat) \<le> 3 \<and> wait_exponential 2 4 60 1 \<le> wait_exponential 2 4 60 3"
proof -
  have a: "get_html always_503 = \<lparr>result = RetryError, attempts = 3, waits = [2, 2]\<rparr>"
    by (simp add: get_html_def always_503_def wait_exponential_def)
  have b: "openai_post always_503 = \<lparr>result = RetryError, attempts = 4, waits = [4, 4, 8]\<rparr>"
    by (simp add: openai_post_def always_503_def wait_exponential_def)
  have c: "(1::nat) \<le> 3" by simp
  have t: "attempts (get_html always_503) \<le> 3 \<and> attempts (openai_post always_503) \<le> 4 \<and>
      (\<forall>s \<in> set (waits (get_html always_503)). s \<le> 20) \<and>
      (\<forall>s \<in> set (waits (openai_post always_503)). s \<le> 60) \<and>
      wait_exponential 2 4 60 1 \<le> wait_exponential 2 4 60 3"
    using retry_policies_bounded [of always_503 always_503 1 3] c by blast
  have l1: "list_all (\<lambda>s. s \<le> 20) (waits (get_html always_503))"
    using t unfolding list_all_iff by blast
  have l2: "list_all (\<lambda>s. s \<le> 60) (waits (openai_post always_503))"
    using t unfolding list_all_iff by blast
  show ?thesis
    using t a b c l1 l2 by blast
qed

section \<open>Accepted results and artifact names\<close>

lemma letter_name_not_followups: "letter_name e j \<noteq> ''followups.txt''"
proof
  assume "letter_name e j = ''followups.txt''"
  then have "last (letter_name e j) = last ''followups.txt''" by simp
  then show False by (simp add: letter_name_def)
qed

lemma handle_result_accepts:
  assumes "map_of kv ''data_error'' = None"
  shows "handle_result e j (JObj kv) w =
     (case (case map_of kv ''cover_letter'' of Some v \<Rightarrow> v | None \<Rightarrow> JStr []) of
        JStr s \<Rightarrow>
          Returned () (say (MsgSaved (title j) (letter_name e j))
            ((schedule_followup e j (w\<lparr>files := (files w)(letter_name e j \<mapsto> s)\<rparr>))
               \<lparr>seen_urls := insert (url j) (seen_urls w)\<rparr>))
      | _ \<Rightarrow> Raised TypeError w)"
  using assms
  by (simp add: handle_result_def save_letter_def schedule_followup_def Let_def split: json.splits option.splits)

text \<open>
  Claim C9: when the answer of the generation parses to a dict that has neither the key
  \<^verbatim>\<open>data_error\<close> nor the key \<^verbatim>\<open>cover_letter\<close>, the posting is accepted: an
  artifact file with the empty string is written, the follow-up line is put in front of
  the journal, and the url is added to \<^verbatim>\<open>SEEN_URLS\<close>.
\<close>

theorem missing_cover_letter_accepted:
  assumes "gpt e j = Inr raw" and "json_loads e raw = Inr (JObj kv)"
    and "map_of kv ''data_error'' = None" and "map_of kv ''cover_letter'' = None"
  shows "\<not> crashed (handle_result e j (mega_generate e j) w) \<and>
         files (final (handle_result e j (mega_generate e j) w)) =
           (files w)(letter_name e j \<mapsto> [],
                     ''followups.txt'' \<mapsto> eta e @ ''||'' @ url j @ [CHR 0x0A] @ read_or_empty (files w) ''followups.txt'') \<and>
         seen_urls (final (handle_result e j (mega_generate e j) w)) = insert (url j) (seen_urls w) \<and>
         out (final (handle_result e j (mega_generate e j) w)) = out w @ [MsgSaved (title j) (letter_name e j)]"
proof -
  have m: "mega_generate e j = JObj kv"
    using assms(1,2) by (simp add: mega_generate_def)
  have r: "read_or_empty ((files w)(letter_name e j \<mapsto> [])) ''followups.txt'' = read_or_empty (files w) ''followups.txt''"
    using letter_name_not_followups [of e j] by (simp add: read_or_empty_def)
  show ?thesis
    unfolding m handle_result_accepts [OF assms(3)]
    using assms(4) r by (simp add: schedule_followup_def say_def Let_def)
qed

theorem missing_cover_letter_accepted_witness:
  "gpt env0 (posting ''c'' ''u2'' ''WWR'') = Inr ''{}'' \<and> json_loads env0 ''{}'' = Inr (JObj []) \<and>
   map_of ([] :: (string \<times> json) list) ''data_error'' = None \<and>
   map_of ([] :: (string \<times> json) list) ''cover_letter'' = None \<and>
   \<not> crashed (handle_result env0 (posting ''c'' ''u2'' ''WWR'') (mega_generate env0 (posting ''c'' ''u2'' ''WWR'')) w0) \<and>
   files (final (handle_result env0 (posting ''c'' ''u2'' ''WWR'') (mega_generate env0 (posting ''c'' ''u2'' ''WWR'')) w0)) =
     [''2024-05-01_c_WWR.md'' \<mapsto> [], ''followups.txt'' \<mapsto> ''2024-05-03T09:00:00||u2'' @ [CHR 0x0A]] \<and>
   seen_urls (final (handle_result env0 (posting ''c'' ''u2'' ''WWR'') (mega_generate env0 (posting ''c'' ''u2'' ''WWR'')) w0)) = {''u2''}"
proof -
  have h1: "gpt env0 (posting ''c'' ''u2'' ''WWR'') = Inr ''{}''"
    by (simp add: env0_def reply_sample_def posting_def)
  have h2: "json_loads env0 ''{}'' = Inr (JObj [])"
    by (simp add: env0_def parse_sample_def)
  have h3: "map_of ([] :: (string \<times> json) list) ''data_error'' = None" by simp
  have h4: "map_of ([] :: (string \<times> json) list) ''cover_letter'' = None" by simp
  have n: "letter_name env0 (posting ''c'' ''u2'' ''WWR'') = ''2024-05-01_c_WWR.md''"
    by (simp add: letter_name_def env0_def posting_def ascii_word_def)
  have v: "eta env0 = ''2024-05-03T09:00:00''" "url (posting ''c'' ''u2'' ''WWR'') = ''u2''"
    by (simp_all add: env0_def posting_def)
  show ?thesis
    using missing_cover_letter_accepted [OF h1 h2 h3 h4, of w0] h1 h2 n v
    by (simp add: w0_def read_or_empty_def)
qed

text \<open>
  Claim C10: the name of an artifact file is made of the date of the run, the first 40
  characters of the sanitized title and the board; the url has no part in it. Two
  accepted postings whose sanitized titles agree on the first 40 characters and whose
  boards are equal share the name, and after both are handled the file holds the letter
  of the second.
\<close>

theorem letter_name_collision:
  "letter_name e j = today e @ ''_'' @ take 40 (re_sub_W (word_char e) (title j)) @ ''_'' @ board j @ ''.md'' \<and>
   letter_name e (j\<lparr>url := u\<rparr>) = letter_name e j \<and>
   (take 40 (re_sub_W (word_char e) (title j1)) = take 40 (re_sub_W (word_char e) (title j2)) \<longrightarrow>
    board j1 = board j2 \<longrightarrow>
      letter_name e j1 = letter_name e j2 \<and>
      files (final (handle_results e
          [(j1, JObj [(''cover_letter'', JStr s1)]), (j2, JObj [(''cover_letter'', JStr s2)])] w))
        (letter_name e j1) = Some s2)"
proof -
  have a: "letter_name e j1 = letter_name e j2 \<and>
      files (final (handle_results e
          [(j1, JObj [(''cover_letter'', JStr s1)]), (j2, JObj [(''cover_letter'', JStr s2)])] w))
        (letter_name e j1) = Some s2"
    if t: "take 40 (re_sub_W (word_char e) (title j1)) = take 40 (re_sub_W (word_char e) (title j2))"
      and b: "board j1 = board j2"
  proof -
    have n: "letter_name e j1 = letter_name e j2"
      using t b by (simp add: letter_name_def)
    have f: "letter_name e j2 \<noteq> ''followups.txt''"
      by (rule letter_name_not_followups)
    show ?thesis
      using n f
      by (simp add: handle_result_def save_letter_def schedule_followup_def say_def Let_def)
  qed
  show ?thesis using a by (simp add: letter_name_def)
qed

theorem letter_name_collision_witness:
  "take 40 (re_sub_W (word_char env0) (title dev1)) = take 40 (re_sub_W (word_char env0) (title dev2)) \<and>
   board dev1 = board dev2 \<and> url dev1 \<noteq> url dev2 \<and>
   letter_name env0 dev1 = ''2024-05-01_Senior_Dev__WWR.md'' \<and>
   letter_name env0 dev2 = ''2024-05-01_Senior_Dev__WWR.md'' \<and>
   files (final (handle_results env0
          [(dev1, JObj [(''cover_letter'', JStr ''first'')]), (dev2, JObj [(''cover_letter'', JStr ''second'')])] w0))
        ''2024-05-01_Senior_Dev__WWR.md'' = Some ''second''"
proof -
  have h1: "take 40 (re_sub_W (word_char env0) (title dev1)) = take 40 (re_sub_W (word_char env0) (title dev2))"
    by (simp add: env0_def dev1_def dev2_def posting_def ascii_word_def)
  have h2: "board dev1 = board dev2" by (simp add: dev1_def dev2_def posting_def)
  have h3: "url dev1 \<noteq> url dev2" by (simp add: dev1_def dev2_def posting_def)
  have n: "letter_name env0 dev1 = ''2024-05-01_Senior_Dev__WWR.md''"
    by (simp add: letter_name_def env0_def dev1_def posting_def ascii_word_def)
  have c: "letter_name env0 dev1 = letter_name env0 dev2 \<and>
      files (final (handle_results env0
          [(dev1, JObj [(''cover_letter'', JStr ''first'')]), (dev2, JObj [(''cover_letter'', JStr ''second'')])] w0))
        (letter_name env0 dev1) = Some ''second''"
    using letter_name_collision [of env0 dev1 "[]" dev1 dev2 "''first''" "''second''" w0] h1 h2
    by blast
  have d1: "letter_name env0 dev2 = ''2024-05-01_Senior_Dev__WWR.md''"
    using c n by (elim conjE) (rule trans [OF sym])
  have d2: "files (final (handle_results env0
          [(dev1, JObj [(''cover_letter'', JStr ''first'')]), (dev2, JObj [(''cover_letter'', JStr ''second'')])] w0))
        ''2024-05-01_Senior_Dev__WWR.md'' = Some ''second''"
    using c unfolding n by (elim conjE)
  show ?thesis
    using h1 h2 h3 n d1 d2 by blast
qed

end
